theory Spec2Isabelle
  imports Main
begin

section \<open>JavaScript values and option objects\<close>

text \<open>
  The hook receives a plain JavaScript object \<open>opts\<close> and reads two of its properties.
  Only the values that the declared property types admit are modelled: \<open>undefined\<close>,
  numbers and functions. Numbers are the integers and \<open>NaN\<close>; a function is an opaque
  identifier, and calling it is recorded, since what a callback does is the caller's code.
  An object is a finite map from property names to values, so that one object can be
  handed to either variant of the hook, whatever names its properties have.
\<close>

datatype jsnum = Fin int | NaN

datatype jsval = Undefined | Number jsnum | Fn nat

type_synonym jsobject = "string \<rightharpoonup> jsval"

text \<open>Property read \<open>obj.k\<close>: a missing property reads as \<open>undefined\<close>.\<close>

definition get_prop :: "jsobject \<Rightarrow> string \<Rightarrow> jsval" where
  "get_prop obj k = (case obj k of None \<Rightarrow> Undefined | Some v \<Rightarrow> v)"

text \<open>JavaScript truthiness: \<open>undefined\<close>, \<open>0\<close> and \<open>NaN\<close> are falsy, a function is truthy.\<close>

fun truthy :: "jsval \<Rightarrow> bool" where
  "truthy Undefined = False"
| "truthy (Number NaN) = False"
| "truthy (Number (Fin n)) = (n \<noteq> 0)"
| "truthy (Fn c) = True"

text \<open>The operator \<open>a || b\<close> on values.\<close>

definition or_js :: "jsval \<Rightarrow> jsval \<Rightarrow> jsval" where
  "or_js a b = (if truthy a then a else b)"

section \<open>The world: one hook instance, a virtual clock and the timer queue\<close>

text \<open>
  Everything observable is recorded in a trace: each write of the flag, each callback
  invocation and each uncaught \<open>TypeError\<close>, with the time at which it happens and the
  timer task that performs it (\<open>None\<close> for code run synchronously by the caller).
\<close>

datatype effect = SetIsOpen bool | Invoke nat | TypeError

datatype event = Event (ev_time: nat) (ev_origin: "nat option") (ev_act: effect)

text \<open>
  The arrow functions handed to \<open>setTimeout\<close>, one constructor for each arrow function
  of the two source files, with the variables it captures. The last two are the arrow
  functions of \<open>src/useTemporaryDisclosure/index.ts\<close>.
\<close>

datatype closure =
    OpenForTimeout jsobject
  | ActionTimeout bool jsobject
  | OpenForTimeout_legacy jsobject
  | ActionTimeout_legacy bool jsobject

datatype task = Task (handle: nat) (due: nat) (body: closure)

record world =
  cell :: "bool option"
  clock :: nat
  running :: "nat option"
  next_handle :: nat
  timers :: "task list"
  trace :: "event list"

definition log_event :: "effect \<Rightarrow> world \<Rightarrow> world" where
  "log_event a w = w\<lparr>trace := trace w @ [Event (clock w) (running w) a]\<rparr>"

text \<open>
  Modelled from the spec: React's \<open>useState\<close> and the setter it returns are not code of
  this repository. The state slot is empty before the first render; \<open>useState(initial)\<close>
  fills an empty slot with \<open>initial\<close> and otherwise returns the stored value. The setter
  stores the new value at once (the spec's "the open transition is synchronous and
  observable before the call returns"); the rendered \<open>isOpen\<close> is the slot's value at the
  next call of the hook.
\<close>

definition useState :: "bool \<Rightarrow> world \<Rightarrow> bool \<times> world" where
  "useState initial w =
     (case cell w of
        None \<Rightarrow> (initial, w\<lparr>cell := Some initial\<rparr>)
      | Some v \<Rightarrow> (v, w))"

definition setIsOpen :: "bool \<Rightarrow> world \<Rightarrow> world" where
  "setIsOpen b w = log_event (SetIsOpen b) (w\<lparr>cell := Some b\<rparr>)"

text \<open>
  Modelled from the spec: the platform timer \<open>setTimeout\<close> is not code of this repository.
  A task registered with delay \<open>d\<close> becomes runnable once \<open>d\<close> milliseconds have elapsed;
  a negative delay and a delay that is not a number count as \<open>0\<close> (the spec's
  "negative/zero durations fire on the next tick"). The handle that \<open>setTimeout\<close> returns
  is discarded by both source files; it identifies the task in the trace.
\<close>

definition timeout_ms :: "jsval \<Rightarrow> nat" where
  "timeout_ms v =
     (case v of
        Number (Fin n) \<Rightarrow> (if n < 0 then 0 else nat n)
      | _ \<Rightarrow> 0)"

definition setTimeout :: "closure \<Rightarrow> jsval \<Rightarrow> world \<Rightarrow> world" where
  "setTimeout f delay w =
     w\<lparr>timers := timers w @ [Task (next_handle w) (clock w + timeout_ms delay) f],
       next_handle := Suc (next_handle w)\<rparr>"

text \<open>
  The expression statement \<open>f && f()\<close>: nothing happens when \<open>f\<close> is falsy; a truthy
  value is called, which is a \<open>TypeError\<close> unless it is a function.
\<close>

definition and_call :: "jsval \<Rightarrow> world \<Rightarrow> world" where
  "and_call f w =
     (if truthy f
      then (case f of Fn c \<Rightarrow> log_event (Invoke c) w | _ \<Rightarrow> log_event TypeError w)
      else w)"

section \<open>The documented hook (options \<open>duration\<close>, \<open>callback\<close>)\<close>

text \<open>
  The hook whose options type declares \<open>duration\<close> and \<open>callback\<close>, as the README
  documents them.
\<close>

definition openFor :: "jsobject \<Rightarrow> world \<Rightarrow> world" where
  "openFor opts w =
     setTimeout (OpenForTimeout opts)
       (or_js (get_prop opts ''duration'') (Number (Fin 0)))
       (setIsOpen True w)"

definition action :: "bool \<Rightarrow> jsobject \<Rightarrow> world \<Rightarrow> world" where
  "action nextState opts w =
     setTimeout (ActionTimeout nextState opts)
       (or_js (get_prop opts ''duration'') (Number (Fin 0)))
       w"

definition openIn :: "jsobject \<Rightarrow> world \<Rightarrow> world" where
  "openIn opts w = action True opts w"

definition closeIn :: "jsobject \<Rightarrow> world \<Rightarrow> world" where
  "closeIn opts w = action False opts w"

section \<open>The hook of \<open>src/useTemporaryDisclosure/index.ts\<close> (options \<open>t\<close>, \<open>callBack\<close>)\<close>

text \<open>
  The same hook as that file has it: its options type declares \<open>t\<close> and \<open>callBack\<close>.
\<close>

definition openFor_legacy :: "jsobject \<Rightarrow> world \<Rightarrow> world" where
  "openFor_legacy opts w =
     setTimeout (OpenForTimeout_legacy opts)
       (or_js (get_prop opts ''t'') (Number (Fin 0)))
       (setIsOpen True w)"

definition action_legacy :: "bool \<Rightarrow> jsobject \<Rightarrow> world \<Rightarrow> world" where
  "action_legacy nextState opts w =
     setTimeout (ActionTimeout_legacy nextState opts)
       (or_js (get_prop opts ''t'') (Number (Fin 0)))
       w"

definition openIn_legacy :: "jsobject \<Rightarrow> world \<Rightarrow> world" where
  "openIn_legacy opts w = action_legacy True opts w"

definition closeIn_legacy :: "jsobject \<Rightarrow> world \<Rightarrow> world" where
  "closeIn_legacy opts w = action_legacy False opts w"

section \<open>The bodies of the scheduled arrow functions\<close>

text \<open>
  Each body writes the flag and then evaluates \<open>opts.callback && opts.callback()\<close>
  (\<open>opts.callBack\<close> in the older file); the property is read when the task runs.
\<close>

fun run_closure :: "closure \<Rightarrow> world \<Rightarrow> world" where
  "run_closure (OpenForTimeout opts) w =
     and_call (get_prop opts ''callback'') (setIsOpen False w)"
| "run_closure (ActionTimeout nextState opts) w =
     and_call (get_prop opts ''callback'') (setIsOpen nextState w)"
| "run_closure (OpenForTimeout_legacy opts) w =
     and_call (get_prop opts ''callBack'') (setIsOpen False w)"
| "run_closure (ActionTimeout_legacy nextState opts) w =
     and_call (get_prop opts ''callBack'') (setIsOpen nextState w)"

section \<open>The object returned by the hook\<close>

text \<open>
  The returned object literal, as the list of its properties in source order. A property
  is the rendered flag, one of the operations, or an identifier that the module does not
  declare and that therefore refers to the ambient global of that name.
\<close>

datatype propval = PBool bool | PFun "jsobject \<Rightarrow> world \<Rightarrow> world" | PGlobal string

definition useTemporaryDisclosure :: "world \<Rightarrow> (string \<times> propval) list \<times> world" where
  "useTemporaryDisclosure w =
     (case useState False w of (isOpen, w') \<Rightarrow>
        ([(''isOpen'', PBool isOpen),
          (''openIn'', PFun openIn),
          (''closeIn'', PFun closeIn),
          (''openFor'', PFun openFor)], w'))"

definition useTemporaryDisclosure_legacy :: "world \<Rightarrow> (string \<times> propval) list \<times> world" where
  "useTemporaryDisclosure_legacy w =
     (case useState False w of (isOpen, w') \<Rightarrow>
        ([(''isOpen'', PBool isOpen),
          (''open'', PGlobal ''open''),
          (''openIn'', PFun openIn_legacy),
          (''closeIn'', PFun closeIn_legacy),
          (''openFor'', PFun openFor_legacy)], w'))"

section \<open>The event loop\<close>

text \<open>
  Modelled from the spec: the event loop is platform code. Among the pending tasks it
  takes the one that is due first, the one registered first among equals, and runs it
  no earlier than its due time. \<open>pop_earliest\<close> returns that task and the others in their order.
\<close>

fun pop_earliest :: "task list \<Rightarrow> (task \<times> task list) option" where
  "pop_earliest [] = None"
| "pop_earliest (t # ts) =
     (case pop_earliest ts of
        None \<Rightarrow> Some (t, [])
      | Some (u, rest) \<Rightarrow> if due t \<le> due u then Some (t, ts) else Some (u, t # rest))"

definition run_task :: "task \<Rightarrow> world \<Rightarrow> world" where
  "run_task t w =
     (run_closure (body t)
        (w\<lparr>clock := max (clock w) (due t), running := Some (handle t)\<rparr>))
     \<lparr>running := None\<rparr>"

text \<open>
  Let time pass until \<open>T\<close>: every pending task that is due by then runs, in the order
  of the event loop, and the clock ends at \<open>T\<close>. A task body schedules nothing, so the
  queue shrinks with every task run.
\<close>

function run_until :: "nat \<Rightarrow> world \<Rightarrow> world" where
  "run_until T w =
     (case pop_earliest (timers w) of
        None \<Rightarrow> w\<lparr>clock := max (clock w) T\<rparr>
      | Some (t, rest) \<Rightarrow>
          if due t \<le> T
          then run_until T (run_task t (w\<lparr>timers := rest\<rparr>))
          else w\<lparr>clock := max (clock w) T\<rparr>)"
  by pat_completeness auto
termination
proof (relation "measure (\<lambda>(T, w). length (timers w))")
  show "wf (measure (\<lambda>(T, w). length (timers w)))"
    by simp
next
  fix T :: nat and w :: world and p t rest
  assume p: "pop_earliest (timers w) = Some p" and q: "(t, rest) = p"
  have none: "pop_earliest ts = None \<Longrightarrow> ts = []" for ts
    by (cases ts) (auto split: option.splits if_splits)
  have shorter: "pop_earliest ts = Some (u, r) \<Longrightarrow> Suc (length r) = length ts" for ts u r
    by (induction ts arbitrary: u r) (auto split: option.splits if_splits dest: none)
  have kept: "timers (run_task u v) = timers v" for u v
    by (cases "body u")
       (simp_all add: run_task_def and_call_def setIsOpen_def log_event_def split: jsval.splits)
  from p q have "Suc (length rest) = length (timers w)"
    using shorter [of "timers w" t rest] by simp
  then show "((T, run_task t (w\<lparr>timers := rest\<rparr>)), (T, w)) \<in> measure (\<lambda>(T, w). length (timers w))"
    by (simp add: kept)
qed

declare run_until.simps [simp del]

text \<open>An unmounted instance at time \<open>0\<close>, with nothing scheduled.\<close>

definition unmounted :: world where
  "unmounted =
     \<lparr>cell = None, clock = 0, running = None, next_handle = 0, timers = [], trace = []\<rparr>"

text \<open>
  The events that the statement \<open>f && f()\<close> adds to the trace when task \<open>h\<close> runs it
  at time \<open>now\<close>: the invocation of a function, nothing for \<open>undefined\<close>, and a
  \<open>TypeError\<close> for a truthy value that is not a function (which the declared types exclude).
\<close>

abbreviation call_events :: "jsval \<Rightarrow> nat \<Rightarrow> nat \<Rightarrow> event list" where
  "call_events f now h \<equiv>
     (case f of
        Fn c \<Rightarrow> [Event now (Some h) (Invoke c)]
      | Undefined \<Rightarrow> []
      | Number n \<Rightarrow> if truthy (Number n) then [Event now (Some h) TypeError] else [])"

text \<open>
  Example inputs: the options of the README's usage example, the same options under the
  property names of \<open>src/useTemporaryDisclosure/index.ts\<close>, and an instance after its
  first render.
\<close>

definition readme_opts :: jsobject where
  "readme_opts = [''duration'' \<mapsto> Number (Fin 3000), ''callback'' \<mapsto> Fn 7]"

definition legacy_opts :: jsobject where
  "legacy_opts = [''t'' \<mapsto> Number (Fin 3000), ''callBack'' \<mapsto> Fn 7]"

definition mounted :: world where
  "mounted = snd (useTemporaryDisclosure unmounted)"

section \<open>What a pending task will do, and worlds that behave alike\<close>

text \<open>
  The flag that a scheduled arrow function writes and the value it then tests and calls,
  read off the closure. Two tasks are alike when they have the same handle and due time
  and their bodies write the same flag and call the same value; two worlds are alike when
  they agree on everything but the representation of their pending tasks, which are
  pairwise alike.
\<close>

fun flag_written :: "closure \<Rightarrow> bool" where
  "flag_written (OpenForTimeout opts) = False"
| "flag_written (ActionTimeout nextState opts) = nextState"
| "flag_written (OpenForTimeout_legacy opts) = False"
| "flag_written (ActionTimeout_legacy nextState opts) = nextState"

fun callback_of :: "closure \<Rightarrow> jsval" where
  "callback_of (OpenForTimeout opts) = get_prop opts ''callback''"
| "callback_of (ActionTimeout nextState opts) = get_prop opts ''callback''"
| "callback_of (OpenForTimeout_legacy opts) = get_prop opts ''callBack''"
| "callback_of (ActionTimeout_legacy nextState opts) = get_prop opts ''callBack''"

definition same_task :: "task \<Rightarrow> task \<Rightarrow> bool" where
  "same_task t u \<longleftrightarrow>
     handle t = handle u \<and> due t = due u
     \<and> flag_written (body t) = flag_written (body u)
     \<and> callback_of (body t) = callback_of (body u)"

definition same_behaviour :: "world \<Rightarrow> world \<Rightarrow> bool" where
  "same_behaviour w v \<longleftrightarrow>
     cell w = cell v \<and> clock w = clock v \<and> running w = running v
     \<and> next_handle w = next_handle v \<and> trace w = trace v
     \<and> list_all2 same_task (timers w) (timers v)"

section \<open>Running tasks: basic facts\<close>

lemma pop_earliest_eq_None: "pop_earliest ts = None \<longleftrightarrow> ts = []"
  by (cases ts) (auto split: option.splits if_splits)

text \<open>A scheduled body does nothing but write its flag and then test and call its value.\<close>

lemma run_closure_unfold:
  "run_closure f w = and_call (callback_of f) (setIsOpen (flag_written f) w)"
  by (cases f) simp_all

lemma run_task_cell: "cell (run_task t v) = Some (flag_written (body t))"
  by (simp add: run_task_def run_closure_unfold and_call_def setIsOpen_def log_event_def
           split: jsval.splits)

lemma run_task_clock: "clock (run_task t v) = max (clock v) (due t)"
  by (simp add: run_task_def run_closure_unfold and_call_def setIsOpen_def log_event_def
           split: jsval.splits)

lemma run_task_timers: "timers (run_task t v) = timers v"
  by (simp add: run_task_def run_closure_unfold and_call_def setIsOpen_def log_event_def
           split: jsval.splits)

lemma run_task_next_handle: "next_handle (run_task t v) = next_handle v"
  by (simp add: run_task_def run_closure_unfold and_call_def setIsOpen_def log_event_def
           split: jsval.splits)

lemma run_task_running: "running (run_task t v) = None"
  by (simp add: run_task_def)

lemma run_task_trace:
  "trace (run_task t v) =
     trace v @ Event (max (clock v) (due t)) (Some (handle t)) (SetIsOpen (flag_written (body t)))
       # call_events (callback_of (body t)) (max (clock v) (due t)) (handle t)"
  by (simp add: run_task_def run_closure_unfold and_call_def setIsOpen_def log_event_def
           split: jsval.splits)

lemmas run_task_sel =
  run_task_cell run_task_clock run_task_timers run_task_next_handle run_task_running

lemma run_until_idle: "timers w = [] \<Longrightarrow> run_until T w = w\<lparr>clock := max (clock w) T\<rparr>"
  by (subst run_until.simps) simp

lemma run_until_one:
  "timers w = [t] \<Longrightarrow>
   run_until T w =
     (if due t \<le> T
      then (run_task t (w\<lparr>timers := []\<rparr>))\<lparr>clock := max (clock w) T\<rparr>
      else w\<lparr>clock := max (clock w) T\<rparr>)"
  by (subst run_until.simps) (simp add: run_until_idle run_task_sel max.absorb2 max.coboundedI2)

lemma run_until_setTimeout:
  "timers w = [] \<Longrightarrow>
   run_until T (setTimeout f delay w) =
     (if clock w + timeout_ms delay \<le> T
      then (run_task (Task (next_handle w) (clock w + timeout_ms delay) f)
              ((setTimeout f delay w)\<lparr>timers := []\<rparr>))\<lparr>clock := max (clock w) T\<rparr>
      else (setTimeout f delay w)\<lparr>clock := max (clock w) T\<rparr>)"
  by (simp add: run_until_one [where t = "Task (next_handle w) (clock w + timeout_ms delay) f"]
        setTimeout_def)

subsection \<open>Worlds that behave alike stay alike\<close>

lemma same_task_refl: "same_task t t"
  by (simp add: same_task_def)

lemma same_behaviour_refl: "same_behaviour w w"
  by (simp add: same_behaviour_def list_all2_refl same_task_refl)

lemma pop_earliest_alike:
  "list_all2 same_task ts us \<Longrightarrow>
   rel_option (\<lambda>(t, r) (u, q). same_task t u \<and> list_all2 same_task r q)
     (pop_earliest ts) (pop_earliest us)"
proof (induction ts us rule: list_all2_induct)
  case Nil
  then show ?case by simp
next
  case (Cons t ts u us)
  then show ?case
    by (cases "pop_earliest ts"; cases "pop_earliest us")
       (auto simp: same_task_def)
qed

lemma run_task_alike:
  "same_task t u \<Longrightarrow> same_behaviour w v \<Longrightarrow> same_behaviour (run_task t w) (run_task u v)"
  by (simp add: same_behaviour_def same_task_def run_task_sel run_task_trace
           split: jsval.splits)

lemma run_until_alike:
  "same_behaviour w v \<Longrightarrow> same_behaviour (run_until T w) (run_until T v)"
proof (induction T w arbitrary: v rule: run_until.induct)
  case (1 T w)
  from "1.prems" have ts: "list_all2 same_task (timers w) (timers v)"
    by (simp add: same_behaviour_def)
  show ?case
  proof (cases "pop_earliest (timers w)")
    case None
    then have "timers w = []" by (simp add: pop_earliest_eq_None)
    with ts have "timers v = []" by simp
    with \<open>timers w = []\<close> "1.prems" show ?thesis
      by (simp add: run_until_idle same_behaviour_def)
  next
    case (Some p)
    obtain t r where p: "p = (t, r)" by (cases p)
    with Some pop_earliest_alike [OF ts] obtain u q
      where q: "pop_earliest (timers v) = Some (u, q)"
        and tu: "same_task t u" and rq: "list_all2 same_task r q"
      by (auto simp: option_rel_Some1)
    from tu have due: "due t = due u" by (simp add: same_task_def)
    show ?thesis
    proof (cases "due t \<le> T")
      case True
      have "same_behaviour (w\<lparr>timers := r\<rparr>) (v\<lparr>timers := q\<rparr>)"
        using "1.prems" rq by (simp add: same_behaviour_def)
      then have "same_behaviour (run_task t (w\<lparr>timers := r\<rparr>)) (run_task u (v\<lparr>timers := q\<rparr>))"
        using tu by (rule run_task_alike [rotated])
      then have "same_behaviour (run_until T (run_task t (w\<lparr>timers := r\<rparr>)))
                   (run_until T (run_task u (v\<lparr>timers := q\<rparr>)))"
        using "1.IH" [OF Some p [symmetric] True] by simp
      then show ?thesis
        using Some p q True due
        by (subst run_until.simps, subst (2) run_until.simps) simp
    next
      case False
      then show ?thesis
        using Some p q due "1.prems"
        by (subst run_until.simps, subst (2) run_until.simps) (simp add: same_behaviour_def)
    qed
  qed
qed

subsection \<open>The platform primitives, field by field\<close>

lemma setIsOpen_sel:
  "cell (setIsOpen b w) = Some b"
  "clock (setIsOpen b w) = clock w"
  "running (setIsOpen b w) = running w"
  "next_handle (setIsOpen b w) = next_handle w"
  "timers (setIsOpen b w) = timers w"
  "trace (setIsOpen b w) = trace w @ [Event (clock w) (running w) (SetIsOpen b)]"
  by (simp_all add: setIsOpen_def log_event_def)

lemma setTimeout_sel:
  "cell (setTimeout f delay w) = cell w"
  "clock (setTimeout f delay w) = clock w"
  "running (setTimeout f delay w) = running w"
  "next_handle (setTimeout f delay w) = Suc (next_handle w)"
  "timers (setTimeout f delay w) =
     timers w @ [Task (next_handle w) (clock w + timeout_ms delay) f]"
  "trace (setTimeout f delay w) = trace w"
  by (simp_all add: setTimeout_def)

lemma delay_of_duration:
  "0 \<le> d \<Longrightarrow> timeout_ms (or_js (Number (Fin d)) (Number (Fin 0))) = nat d"
  by (simp add: or_js_def timeout_ms_def)


subsection \<open>The timeline of a single scheduled task\<close>

lemma timeline_cell:
  "timers w = [] \<Longrightarrow>
   cell (run_until T (setTimeout f delay w)) =
     (if T < clock w + timeout_ms delay then cell w else Some (flag_written f))"
  by (simp add: run_until_setTimeout run_task_sel setTimeout_sel)

lemma timeline_trace:
  "timers w = [] \<Longrightarrow>
   trace (run_until T (setTimeout f delay w)) =
     trace w @
     (if T < clock w + timeout_ms delay then []
      else Event (clock w + timeout_ms delay) (Some (next_handle w)) (SetIsOpen (flag_written f))
           # call_events (callback_of f) (clock w + timeout_ms delay) (next_handle w))"
  by (simp add: run_until_setTimeout run_task_trace setTimeout_sel not_less
           cong: jsval.case_cong if_cong)

lemma timeline_timers:
  "timers w = [] \<Longrightarrow>
   timers (run_until T (setTimeout f delay w)) =
     (if T < clock w + timeout_ms delay
      then [Task (next_handle w) (clock w + timeout_ms delay) f] else [])"
  by (simp add: run_until_setTimeout run_task_sel setTimeout_sel)

lemmas timeline = timeline_cell timeline_trace timeline_timers

lemma mounted_sel:
  "cell mounted = Some False" "clock mounted = 0" "running mounted = None"
  "next_handle mounted = 0" "timers mounted = []" "trace mounted = []"
  by (simp_all add: mounted_def useTemporaryDisclosure_def useState_def unmounted_def)

lemma example_opts:
  "get_prop readme_opts ''duration'' = Number (Fin 3000)"
  "get_prop readme_opts ''callback'' = Fn 7"
  "get_prop readme_opts ''t'' = Undefined"
  "get_prop readme_opts ''callBack'' = Undefined"
  "get_prop legacy_opts ''t'' = Number (Fin 3000)"
  "get_prop legacy_opts ''callBack'' = Fn 7"
  by (simp_all add: readme_opts_def legacy_opts_def get_prop_def)

subsection \<open>Tasks that are not yet due stay pending\<close>




subsection \<open>Two pending tasks\<close>

lemma run_until_two:
  "timers w = [t, u] \<Longrightarrow> due u < due t \<Longrightarrow>
   run_until T w =
     (if T < due u then w\<lparr>clock := max (clock w) T\<rparr>
      else if T < due t
      then (run_task u (w\<lparr>timers := [t]\<rparr>))\<lparr>clock := max (clock w) T\<rparr>
      else (run_task t ((run_task u (w\<lparr>timers := [t]\<rparr>))\<lparr>timers := []\<rparr>))
             \<lparr>clock := max (clock w) T\<rparr>)"
  by (subst run_until.simps)
     (simp add: run_until_one [where t = t] run_task_sel max.absorb2 max.coboundedI2 not_less)

subsection \<open>Scheduling alike tasks in alike worlds\<close>

lemma setTimeout_alike:
  "same_behaviour w v \<Longrightarrow> flag_written f = flag_written g \<Longrightarrow>
   callback_of f = callback_of g \<Longrightarrow>
   same_behaviour (setTimeout f d w) (setTimeout g d v)"
  by (simp add: same_behaviour_def setTimeout_sel same_task_def list_all2_appendI)

lemma due_alike: "list_all2 same_task ts us \<Longrightarrow> map due ts = map due us"
  by (induction ts us rule: list_all2_induct) (simp_all add: same_task_def)

lemma same_behaviour_sel:
  assumes "same_behaviour w v"
  shows "cell w = cell v" "trace w = trace v" "map due (timers w) = map due (timers v)"
  using assms by (simp_all add: same_behaviour_def due_alike)

section \<open>The three operations\<close>






section \<open>The object returned by the hook and its property names\<close>

text \<open>
  C3. The object returned by the documented hook has exactly the properties
  \<open>isOpen\<close>, \<open>openIn\<close>, \<open>closeIn\<close>, \<open>openFor\<close>. The object returned by the hook of
  \<open>src/useTemporaryDisclosure/index.ts\<close> has a fifth property \<open>open\<close>, which its own
  declared return type does not list and which the module does not define.
\<close>

theorem returned_object_properties:
  "map fst (fst (useTemporaryDisclosure w)) = [''isOpen'', ''openIn'', ''closeIn'', ''openFor'']
   \<and> map fst (fst (useTemporaryDisclosure_legacy w))
       = [''isOpen'', ''open'', ''openIn'', ''closeIn'', ''openFor'']
   \<and> map_of (fst (useTemporaryDisclosure_legacy w)) ''open'' = Some (PGlobal ''open'')"
  by (simp add: useTemporaryDisclosure_def useTemporaryDisclosure_legacy_def useState_def
           split: option.splits)

text \<open>
  C4, as stated, fails for \<open>src/useTemporaryDisclosure/index.ts\<close>: given the README's
  options \<open>{duration: 3000, callback}\<close>, its operations schedule their task with delay \<open>0\<close>
  and never invoke the callback, and an added property \<open>t\<close> changes the delay although
  \<open>duration\<close> and \<open>callback\<close> stay the same.
\<close>

theorem legacy_hook_ignores_duration_and_callback:
  "get_prop readme_opts ''duration'' = Number (Fin 3000)
   \<and> get_prop readme_opts ''callback'' = Fn 7
   \<and> map due (timers (openFor_legacy readme_opts mounted)) = [0]
   \<and> trace (run_until 3000 (openFor_legacy readme_opts mounted))
       = [Event 0 None (SetIsOpen True), Event 0 (Some 0) (SetIsOpen False)]
   \<and> map due (timers (openIn_legacy readme_opts mounted)) = [0]
   \<and> trace (run_until 3000 (openIn_legacy readme_opts mounted))
       = [Event 0 (Some 0) (SetIsOpen True)]
   \<and> map due (timers (closeIn_legacy readme_opts mounted)) = [0]
   \<and> trace (run_until 3000 (closeIn_legacy readme_opts mounted))
       = [Event 0 (Some 0) (SetIsOpen False)]
   \<and> get_prop (readme_opts(''t'' \<mapsto> Number (Fin 50))) ''duration'' = Number (Fin 3000)
   \<and> get_prop (readme_opts(''t'' \<mapsto> Number (Fin 50))) ''callback'' = Fn 7
   \<and> map due (timers (openFor_legacy (readme_opts(''t'' \<mapsto> Number (Fin 50))) mounted)) = [50]"
proof -
  have g: "get_prop (readme_opts(''t'' \<mapsto> Number (Fin 50))) ''duration'' = Number (Fin 3000)"
    "get_prop (readme_opts(''t'' \<mapsto> Number (Fin 50))) ''callback'' = Fn 7"
    "get_prop (readme_opts(''t'' \<mapsto> Number (Fin 50))) ''t'' = Number (Fin 50)"
    by (simp_all add: readme_opts_def get_prop_def)
  have z: "timeout_ms (or_js Undefined (Number (Fin 0))) = 0"
    "timeout_ms (or_js (Number (Fin 50)) (Number (Fin 0))) = 50"
    by (simp_all add: or_js_def timeout_ms_def)
  show ?thesis
    by (simp add: g z example_opts mounted_sel openFor_legacy_def openIn_legacy_def
          closeIn_legacy_def action_legacy_def timeline setTimeout_sel setIsOpen_sel)
qed

text \<open>
  C4, amended. In the documented hook each operation reads its delay from the property
  \<open>duration\<close> and its completion procedure from the property \<open>callback\<close> of the options
  object: the one task it registers is due \<open>opts.duration || 0\<close> milliseconds after the
  call (\<open>d\<close> milliseconds for a number \<open>d \<ge> 0\<close>), and the body of that task, after its write
  of the flag, evaluates \<open>opts.callback && opts.callback()\<close>, which invokes the function
  stored under \<open>callback\<close>; on an idle instance the write and the invocation appear in the
  trace \<open>d\<close> milliseconds after the call. These two properties determine the scheduled
  transition: two objects that agree on them lead, from any world, to worlds that behave
  alike, right after the call and after any time \<open>T\<close>. In
  \<open>src/useTemporaryDisclosure/index.ts\<close> all of this holds for the properties \<open>t\<close> and
  \<open>callBack\<close> instead.
\<close>

theorem options_determine_transition:
  "(timers (openFor a w) =
        timers w @ [Task (next_handle w)
                      (clock w + timeout_ms (or_js (get_prop a ''duration'') (Number (Fin 0))))
                      (OpenForTimeout a)]
    \<and> timers (openIn a w) =
        timers w @ [Task (next_handle w)
                      (clock w + timeout_ms (or_js (get_prop a ''duration'') (Number (Fin 0))))
                      (ActionTimeout True a)]
    \<and> timers (closeIn a w) =
        timers w @ [Task (next_handle w)
                      (clock w + timeout_ms (or_js (get_prop a ''duration'') (Number (Fin 0))))
                      (ActionTimeout False a)]
    \<and> trace (run_task (Task h due_time (OpenForTimeout a)) v) =
        trace v @ Event (max (clock v) due_time) (Some h) (SetIsOpen False)
          # call_events (get_prop a ''callback'') (max (clock v) due_time) h
    \<and> trace (run_task (Task h due_time (ActionTimeout nextState a)) v) =
        trace v @ Event (max (clock v) due_time) (Some h) (SetIsOpen nextState)
          # call_events (get_prop a ''callback'') (max (clock v) due_time) h
    \<and> (0 \<le> d \<and> get_prop a ''duration'' = Number (Fin d) \<longrightarrow>
        map due (timers (openFor a w)) = map due (timers w) @ [clock w + nat d]
        \<and> map due (timers (openIn a w)) = map due (timers w) @ [clock w + nat d]
        \<and> map due (timers (closeIn a w)) = map due (timers w) @ [clock w + nat d])
    \<and> (get_prop a ''callback'' = Fn c \<longrightarrow>
        trace (run_task (Task h due_time (OpenForTimeout a)) v) =
          trace v @ [Event (max (clock v) due_time) (Some h) (SetIsOpen False),
                     Event (max (clock v) due_time) (Some h) (Invoke c)]
        \<and> trace (run_task (Task h due_time (ActionTimeout nextState a)) v) =
          trace v @ [Event (max (clock v) due_time) (Some h) (SetIsOpen nextState),
                     Event (max (clock v) due_time) (Some h) (Invoke c)])
    \<and> (timers w = [] \<and> 0 \<le> d \<and> get_prop a ''duration'' = Number (Fin d)
          \<and> get_prop a ''callback'' = Fn c \<longrightarrow>
        trace (run_until T (openFor a w)) =
          trace w @ Event (clock w) (running w) (SetIsOpen True)
            # (if T < clock w + nat d then []
               else [Event (clock w + nat d) (Some (next_handle w)) (SetIsOpen False),
                     Event (clock w + nat d) (Some (next_handle w)) (Invoke c)])
        \<and> trace (run_until T (openIn a w)) =
          trace w @
            (if T < clock w + nat d then []
             else [Event (clock w + nat d) (Some (next_handle w)) (SetIsOpen True),
                   Event (clock w + nat d) (Some (next_handle w)) (Invoke c)])
        \<and> trace (run_until T (closeIn a w)) =
          trace w @
            (if T < clock w + nat d then []
             else [Event (clock w + nat d) (Some (next_handle w)) (SetIsOpen False),
                   Event (clock w + nat d) (Some (next_handle w)) (Invoke c)])))
   \<and> (timers (openFor_legacy a w) =
        timers w @ [Task (next_handle w)
                      (clock w + timeout_ms (or_js (get_prop a ''t'') (Number (Fin 0))))
                      (OpenForTimeout_legacy a)]
    \<and> timers (openIn_legacy a w) =
        timers w @ [Task (next_handle w)
                      (clock w + timeout_ms (or_js (get_prop a ''t'') (Number (Fin 0))))
                      (ActionTimeout_legacy True a)]
    \<and> timers (closeIn_legacy a w) =
        timers w @ [Task (next_handle w)
                      (clock w + timeout_ms (or_js (get_prop a ''t'') (Number (Fin 0))))
                      (ActionTimeout_legacy False a)]
    \<and> trace (run_task (Task h due_time (OpenForTimeout_legacy a)) v) =
        trace v @ Event (max (clock v) due_time) (Some h) (SetIsOpen False)
          # call_events (get_prop a ''callBack'') (max (clock v) due_time) h
    \<and> trace (run_task (Task h due_time (ActionTimeout_legacy nextState a)) v) =
        trace v @ Event (max (clock v) due_time) (Some h) (SetIsOpen nextState)
          # call_events (get_prop a ''callBack'') (max (clock v) due_time) h
    \<and> (0 \<le> d \<and> get_prop a ''t'' = Number (Fin d) \<longrightarrow>
        map due (timers (openFor_legacy a w)) = map due (timers w) @ [clock w + nat d]
        \<and> map due (timers (openIn_legacy a w)) = map due (timers w) @ [clock w + nat d]
        \<and> map due (timers (closeIn_legacy a w)) = map due (timers w) @ [clock w + nat d])
    \<and> (get_prop a ''callBack'' = Fn c \<longrightarrow>
        trace (run_task (Task h due_time (OpenForTimeout_legacy a)) v) =
          trace v @ [Event (max (clock v) due_time) (Some h) (SetIsOpen False),
                     Event (max (clock v) due_time) (Some h) (Invoke c)]
        \<and> trace (run_task (Task h due_time (ActionTimeout_legacy nextState a)) v) =
          trace v @ [Event (max (clock v) due_time) (Some h) (SetIsOpen nextState),
                     Event (max (clock v) due_time) (Some h) (Invoke c)])
    \<and> (timers w = [] \<and> 0 \<le> d \<and> get_prop a ''t'' = Number (Fin d)
          \<and> get_prop a ''callBack'' = Fn c \<longrightarrow>
        trace (run_until T (openFor_legacy a w)) =
          trace w @ Event (clock w) (running w) (SetIsOpen True)
            # (if T < clock w + nat d then []
               else [Event (clock w + nat d) (Some (next_handle w)) (SetIsOpen False),
                     Event (clock w + nat d) (Some (next_handle w)) (Invoke c)])
        \<and> trace (run_until T (openIn_legacy a w)) =
          trace w @
            (if T < clock w + nat d then []
             else [Event (clock w + nat d) (Some (next_handle w)) (SetIsOpen True),
                   Event (clock w + nat d) (Some (next_handle w)) (Invoke c)])
        \<and> trace (run_until T (closeIn_legacy a w)) =
          trace w @
            (if T < clock w + nat d then []
             else [Event (clock w + nat d) (Some (next_handle w)) (SetIsOpen False),
                   Event (clock w + nat d) (Some (next_handle w)) (Invoke c)])))
   \<and> (get_prop a ''duration'' = get_prop b ''duration''
      \<and> get_prop a ''callback'' = get_prop b ''callback'' \<longrightarrow>
      same_behaviour (openFor a w) (openFor b w)
      \<and> same_behaviour (openIn a w) (openIn b w)
      \<and> same_behaviour (closeIn a w) (closeIn b w)
      \<and> same_behaviour (run_until T (openFor a w)) (run_until T (openFor b w))
      \<and> same_behaviour (run_until T (openIn a w)) (run_until T (openIn b w))
      \<and> same_behaviour (run_until T (closeIn a w)) (run_until T (closeIn b w)))
   \<and> (get_prop a ''t'' = get_prop b ''t''
      \<and> get_prop a ''callBack'' = get_prop b ''callBack'' \<longrightarrow>
      same_behaviour (openFor_legacy a w) (openFor_legacy b w)
      \<and> same_behaviour (openIn_legacy a w) (openIn_legacy b w)
      \<and> same_behaviour (closeIn_legacy a w) (closeIn_legacy b w)
      \<and> same_behaviour (run_until T (openFor_legacy a w)) (run_until T (openFor_legacy b w))
      \<and> same_behaviour (run_until T (openIn_legacy a w)) (run_until T (openIn_legacy b w))
      \<and> same_behaviour (run_until T (closeIn_legacy a w)) (run_until T (closeIn_legacy b w)))"
proof -
  have reads: "(timers (openFor a w) =
        timers w @ [Task (next_handle w)
                      (clock w + timeout_ms (or_js (get_prop a ''duration'') (Number (Fin 0))))
                      (OpenForTimeout a)]
    \<and> timers (openIn a w) =
        timers w @ [Task (next_handle w)
                      (clock w + timeout_ms (or_js (get_prop a ''duration'') (Number (Fin 0))))
                      (ActionTimeout True a)]
    \<and> timers (closeIn a w) =
        timers w @ [Task (next_handle w)
                      (clock w + timeout_ms (or_js (get_prop a ''duration'') (Number (Fin 0))))
                      (ActionTimeout False a)]
    \<and> trace (run_task (Task h due_time (OpenForTimeout a)) v) =
        trace v @ Event (max (clock v) due_time) (Some h) (SetIsOpen False)
          # call_events (get_prop a ''callback'') (max (clock v) due_time) h
    \<and> trace (run_task (Task h due_time (ActionTimeout nextState a)) v) =
        trace v @ Event (max (clock v) due_time) (Some h) (SetIsOpen nextState)
          # call_events (get_prop a ''callback'') (max (clock v) due_time) h
    \<and> (0 \<le> d \<and> get_prop a ''duration'' = Number (Fin d) \<longrightarrow>
        map due (timers (openFor a w)) = map due (timers w) @ [clock w + nat d]
        \<and> map due (timers (openIn a w)) = map due (timers w) @ [clock w + nat d]
        \<and> map due (timers (closeIn a w)) = map due (timers w) @ [clock w + nat d])
    \<and> (get_prop a ''callback'' = Fn c \<longrightarrow>
        trace (run_task (Task h due_time (OpenForTimeout a)) v) =
          trace v @ [Event (max (clock v) due_time) (Some h) (SetIsOpen False),
                     Event (max (clock v) due_time) (Some h) (Invoke c)]
        \<and> trace (run_task (Task h due_time (ActionTimeout nextState a)) v) =
          trace v @ [Event (max (clock v) due_time) (Some h) (SetIsOpen nextState),
                     Event (max (clock v) due_time) (Some h) (Invoke c)])
    \<and> (timers w = [] \<and> 0 \<le> d \<and> get_prop a ''duration'' = Number (Fin d)
          \<and> get_prop a ''callback'' = Fn c \<longrightarrow>
        trace (run_until T (openFor a w)) =
          trace w @ Event (clock w) (running w) (SetIsOpen True)
            # (if T < clock w + nat d then []
               else [Event (clock w + nat d) (Some (next_handle w)) (SetIsOpen False),
                     Event (clock w + nat d) (Some (next_handle w)) (Invoke c)])
        \<and> trace (run_until T (openIn a w)) =
          trace w @
            (if T < clock w + nat d then []
             else [Event (clock w + nat d) (Some (next_handle w)) (SetIsOpen True),
                   Event (clock w + nat d) (Some (next_handle w)) (Invoke c)])
        \<and> trace (run_until T (closeIn a w)) =
          trace w @
            (if T < clock w + nat d then []
             else [Event (clock w + nat d) (Some (next_handle w)) (SetIsOpen False),
                   Event (clock w + nat d) (Some (next_handle w)) (Invoke c)])))"
    by (simp add: openFor_def openIn_def closeIn_def action_def setTimeout_sel setIsOpen_sel
          run_task_trace timeline delay_of_duration cong: jsval.case_cong if_cong)
  have reads_legacy: "(timers (openFor_legacy a w) =
        timers w @ [Task (next_handle w)
                      (clock w + timeout_ms (or_js (get_prop a ''t'') (Number (Fin 0))))
                      (OpenForTimeout_legacy a)]
    \<and> timers (openIn_legacy a w) =
        timers w @ [Task (next_handle w)
                      (clock w + timeout_ms (or_js (get_prop a ''t'') (Number (Fin 0))))
                      (ActionTimeout_legacy True a)]
    \<and> timers (closeIn_legacy a w) =
        timers w @ [Task (next_handle w)
                      (clock w + timeout_ms (or_js (get_prop a ''t'') (Number (Fin 0))))
                      (ActionTimeout_legacy False a)]
    \<and> trace (run_task (Task h due_time (OpenForTimeout_legacy a)) v) =
        trace v @ Event (max (clock v) due_time) (Some h) (SetIsOpen False)
          # call_events (get_prop a ''callBack'') (max (clock v) due_time) h
    \<and> trace (run_task (Task h due_time (ActionTimeout_legacy nextState a)) v) =
        trace v @ Event (max (clock v) due_time) (Some h) (SetIsOpen nextState)
          # call_events (get_prop a ''callBack'') (max (clock v) due_time) h
    \<and> (0 \<le> d \<and> get_prop a ''t'' = Number (Fin d) \<longrightarrow>
        map due (timers (openFor_legacy a w)) = map due (timers w) @ [clock w + nat d]
        \<and> map due (timers (openIn_legacy a w)) = map due (timers w) @ [clock w + nat d]
        \<and> map due (timers (closeIn_legacy a w)) = map due (timers w) @ [clock w + nat d])
    \<and> (get_prop a ''callBack'' = Fn c \<longrightarrow>
        trace (run_task (Task h due_time (OpenForTimeout_legacy a)) v) =
          trace v @ [Event (max (clock v) due_time) (Some h) (SetIsOpen False),
                     Event (max (clock v) due_time) (Some h) (Invoke c)]
        \<and> trace (run_task (Task h due_time (ActionTimeout_legacy nextState a)) v) =
          trace v @ [Event (max (clock v) due_time) (Some h) (SetIsOpen nextState),
                     Event (max (clock v) due_time) (Some h) (Invoke c)])
    \<and> (timers w = [] \<and> 0 \<le> d \<and> get_prop a ''t'' = Number (Fin d)
          \<and> get_prop a ''callBack'' = Fn c \<longrightarrow>
        trace (run_until T (openFor_legacy a w)) =
          trace w @ Event (clock w) (running w) (SetIsOpen True)
            # (if T < clock w + nat d then []
               else [Event (clock w + nat d) (Some (next_handle w)) (SetIsOpen False),
                     Event (clock w + nat d) (Some (next_handle w)) (Invoke c)])
        \<and> trace (run_until T (openIn_legacy a w)) =
          trace w @
            (if T < clock w + nat d then []
             else [Event (clock w + nat d) (Some (next_handle w)) (SetIsOpen True),
                   Event (clock w + nat d) (Some (next_handle w)) (Invoke c)])
        \<and> trace (run_until T (closeIn_legacy a w)) =
          trace w @
            (if T < clock w + nat d then []
             else [Event (clock w + nat d) (Some (next_handle w)) (SetIsOpen False),
                   Event (clock w + nat d) (Some (next_handle w)) (Invoke c)])))"
    by (simp add: openFor_legacy_def openIn_legacy_def closeIn_legacy_def action_legacy_def
          setTimeout_sel setIsOpen_sel run_task_trace timeline delay_of_duration
          cong: jsval.case_cong if_cong)
  have determined: "(get_prop a ''duration'' = get_prop b ''duration''
      \<and> get_prop a ''callback'' = get_prop b ''callback'' \<longrightarrow>
      same_behaviour (openFor a w) (openFor b w)
      \<and> same_behaviour (openIn a w) (openIn b w)
      \<and> same_behaviour (closeIn a w) (closeIn b w)
      \<and> same_behaviour (run_until T (openFor a w)) (run_until T (openFor b w))
      \<and> same_behaviour (run_until T (openIn a w)) (run_until T (openIn b w))
      \<and> same_behaviour (run_until T (closeIn a w)) (run_until T (closeIn b w)))"
  proof (intro conjI impI)
  assume h: "get_prop a ''duration'' = get_prop b ''duration''
      \<and> get_prop a ''callback'' = get_prop b ''callback''"
  show f: "same_behaviour (openFor a w) (openFor b w)"
    unfolding openFor_def using h
    by (simp add: setTimeout_alike same_behaviour_refl)
  have "same_behaviour (action s a w) (action s b w)" for s
    unfolding action_def using h
    by (simp add: setTimeout_alike same_behaviour_refl)
  then show i: "same_behaviour (openIn a w) (openIn b w)"
    and c: "same_behaviour (closeIn a w) (closeIn b w)"
    by (simp_all add: openIn_def closeIn_def)
  show "same_behaviour (run_until T (openFor a w)) (run_until T (openFor b w))"
    "same_behaviour (run_until T (openIn a w)) (run_until T (openIn b w))"
    "same_behaviour (run_until T (closeIn a w)) (run_until T (closeIn b w))"
    by (rule run_until_alike, fact)+
  qed
  have determined_legacy: "(get_prop a ''t'' = get_prop b ''t''
      \<and> get_prop a ''callBack'' = get_prop b ''callBack'' \<longrightarrow>
      same_behaviour (openFor_legacy a w) (openFor_legacy b w)
      \<and> same_behaviour (openIn_legacy a w) (openIn_legacy b w)
      \<and> same_behaviour (closeIn_legacy a w) (closeIn_legacy b w)
      \<and> same_behaviour (run_until T (openFor_legacy a w)) (run_until T (openFor_legacy b w))
      \<and> same_behaviour (run_until T (openIn_legacy a w)) (run_until T (openIn_legacy b w))
      \<and> same_behaviour (run_until T (closeIn_legacy a w)) (run_until T (closeIn_legacy b w)))"
  proof (intro conjI impI)  assume h: "get_prop a ''t'' = get_prop b ''t''
      \<and> get_prop a ''callBack'' = get_prop b ''callBack''"
  show f: "same_behaviour (openFor_legacy a w) (openFor_legacy b w)"
    unfolding openFor_legacy_def using h
    by (simp add: setTimeout_alike same_behaviour_refl)
  have "same_behaviour (action_legacy s a w) (action_legacy s b w)" for s
    unfolding action_legacy_def using h
    by (simp add: setTimeout_alike same_behaviour_refl)
  then show i: "same_behaviour (openIn_legacy a w) (openIn_legacy b w)"
    and c: "same_behaviour (closeIn_legacy a w) (closeIn_legacy b w)"
    by (simp_all add: openIn_legacy_def closeIn_legacy_def)
  show "same_behaviour (run_until T (openFor_legacy a w)) (run_until T (openFor_legacy b w))"
    "same_behaviour (run_until T (openIn_legacy a w)) (run_until T (openIn_legacy b w))"
    "same_behaviour (run_until T (closeIn_legacy a w)) (run_until T (closeIn_legacy b w))"
    by (rule run_until_alike, fact)+
  qed
  show ?thesis
    by (rule conjI [OF reads conjI [OF reads_legacy conjI [OF determined determined_legacy]]])
qed

theorem options_determine_transition_witness:
  "get_prop readme_opts ''duration''
     = get_prop (readme_opts(''t'' \<mapsto> Number (Fin 50), ''callBack'' \<mapsto> Fn 9)) ''duration''
   \<and> get_prop readme_opts ''callback''
     = get_prop (readme_opts(''t'' \<mapsto> Number (Fin 50), ''callBack'' \<mapsto> Fn 9)) ''callback''
   \<and> same_behaviour (run_until 3000 (openFor readme_opts mounted))
        (run_until 3000
           (openFor (readme_opts(''t'' \<mapsto> Number (Fin 50), ''callBack'' \<mapsto> Fn 9)) mounted))
   \<and> get_prop legacy_opts ''t''
     = get_prop (legacy_opts(''duration'' \<mapsto> Number (Fin 50), ''callback'' \<mapsto> Fn 9)) ''t''
   \<and> get_prop legacy_opts ''callBack''
     = get_prop (legacy_opts(''duration'' \<mapsto> Number (Fin 50), ''callback'' \<mapsto> Fn 9)) ''callBack''
   \<and> same_behaviour (run_until 3000 (closeIn_legacy legacy_opts mounted))
        (run_until 3000
           (closeIn_legacy
              (legacy_opts(''duration'' \<mapsto> Number (Fin 50), ''callback'' \<mapsto> Fn 9)) mounted))
   \<and> timers mounted = [] \<and> (0::int) \<le> 3000
   \<and> get_prop readme_opts ''duration'' = Number (Fin 3000)
   \<and> get_prop readme_opts ''callback'' = Fn 7
   \<and> get_prop legacy_opts ''t'' = Number (Fin 3000)
   \<and> get_prop legacy_opts ''callBack'' = Fn 7
   \<and> map due (timers (openFor readme_opts mounted)) = [3000]
   \<and> map due (timers (closeIn readme_opts mounted)) = [3000]
   \<and> trace (run_until 3000 (openIn readme_opts mounted))
       = [Event 3000 (Some 0) (SetIsOpen True), Event 3000 (Some 0) (Invoke 7)]
   \<and> map due (timers (openIn_legacy legacy_opts mounted)) = [3000]
   \<and> trace (run_until 3000 (openFor_legacy legacy_opts mounted))
       = [Event 0 None (SetIsOpen True), Event 3000 (Some 0) (SetIsOpen False),
          Event 3000 (Some 0) (Invoke 7)]"
proof -
  have g: "get_prop readme_opts ''duration''
     = get_prop (readme_opts(''t'' \<mapsto> Number (Fin 50), ''callBack'' \<mapsto> Fn 9)) ''duration''"
    "get_prop readme_opts ''callback''
     = get_prop (readme_opts(''t'' \<mapsto> Number (Fin 50), ''callBack'' \<mapsto> Fn 9)) ''callback''"
    "get_prop legacy_opts ''t''
     = get_prop (legacy_opts(''duration'' \<mapsto> Number (Fin 50), ''callback'' \<mapsto> Fn 9)) ''t''"
    "get_prop legacy_opts ''callBack''
     = get_prop (legacy_opts(''duration'' \<mapsto> Number (Fin 50), ''callback'' \<mapsto> Fn 9)) ''callBack''"
    by (simp_all add: get_prop_def)
  have r: "get_prop readme_opts ''duration'' = Number (Fin 3000)"
    "get_prop readme_opts ''callback'' = Fn 7"
    "get_prop legacy_opts ''t'' = Number (Fin 3000)"
    "get_prop legacy_opts ''callBack'' = Fn 7"
    by (rule example_opts)+
  have same: "same_behaviour (run_until 3000 (openFor readme_opts mounted))
        (run_until 3000
           (openFor (readme_opts(''t'' \<mapsto> Number (Fin 50), ''callBack'' \<mapsto> Fn 9)) mounted))"
    using g(1,2)
      options_determine_transition
        [where a = readme_opts
           and b = "readme_opts(''t'' \<mapsto> Number (Fin 50), ''callBack'' \<mapsto> Fn 9)"
           and w = mounted and T = 3000]
    by simp
  have same_legacy: "same_behaviour (run_until 3000 (closeIn_legacy legacy_opts mounted))
        (run_until 3000
           (closeIn_legacy
              (legacy_opts(''duration'' \<mapsto> Number (Fin 50), ''callback'' \<mapsto> Fn 9)) mounted))"
    using g(3,4)
      options_determine_transition
        [where a = legacy_opts
           and b = "legacy_opts(''duration'' \<mapsto> Number (Fin 50), ''callback'' \<mapsto> Fn 9)"
           and w = mounted and T = 3000]
    by simp
  have doc: "map due (timers (openFor readme_opts mounted)) = [3000]"
    "map due (timers (closeIn readme_opts mounted)) = [3000]"
    "trace (run_until 3000 (openIn readme_opts mounted))
       = [Event 3000 (Some 0) (SetIsOpen True), Event 3000 (Some 0) (Invoke 7)]"
    using options_determine_transition
        [where a = readme_opts and b = readme_opts and w = mounted and T = 3000 and d = 3000
           and c = 7 and h = 0 and due_time = 0 and v = mounted and nextState = True]
    by (simp_all add: mounted_sel r delay_of_duration)
  have leg: "map due (timers (openIn_legacy legacy_opts mounted)) = [3000]"
    "trace (run_until 3000 (openFor_legacy legacy_opts mounted))
       = [Event 0 None (SetIsOpen True), Event 3000 (Some 0) (SetIsOpen False),
          Event 3000 (Some 0) (Invoke 7)]"
    using options_determine_transition
        [where a = legacy_opts and b = legacy_opts and w = mounted and T = 3000 and d = 3000
           and c = 7 and h = 0 and due_time = 0 and v = mounted and nextState = True]
    by (simp_all add: mounted_sel r delay_of_duration)
  show ?thesis
    by (intro conjI; (rule g r same same_legacy doc leg mounted_sel | simp))
qed

section \<open>Overlapping calls, missing callbacks and falsy durations\<close>

text \<open>
  C5. \<open>openFor\<close> with duration 100 followed at once by \<open>closeIn\<close> with duration 10, on an
  instance with nothing pending. Both tasks are pending after the two calls: none is
  dropped or cancelled. The flag is \<open>true\<close> right after the calls and until 10 ms later,
  and \<open>false\<close> from then on. The trace holds the write of \<open>true\<close> at the time of the calls,
  the write of \<open>false\<close> by the task of \<open>closeIn\<close> at 10 ms followed by its callback, and a
  second write of \<open>false\<close> by the task of \<open>openFor\<close> at 100 ms followed by its callback:
  the callbacks fire in the order of the delays, not of the calls. A task stores its value
  whatever the world it runs in.
\<close>

theorem overlapping_openFor_closeIn:
  "(timers w = [] \<and> get_prop a ''duration'' = Number (Fin 100)
      \<and> get_prop b ''duration'' = Number (Fin 10) \<longrightarrow>
      cell (closeIn b (openFor a w)) = Some True
      \<and> timers (closeIn b (openFor a w)) =
          [Task (next_handle w) (clock w + 100) (OpenForTimeout a),
           Task (Suc (next_handle w)) (clock w + 10) (ActionTimeout False b)]
      \<and> cell (run_until T (closeIn b (openFor a w))) = Some (T < clock w + 10)
      \<and> trace (run_until T (closeIn b (openFor a w))) =
          trace w @ Event (clock w) (running w) (SetIsOpen True)
            # (if T < clock w + 10 then []
               else Event (clock w + 10) (Some (Suc (next_handle w))) (SetIsOpen False)
                 # call_events (get_prop b ''callback'') (clock w + 10) (Suc (next_handle w))
                 @ (if T < clock w + 100 then []
                    else Event (clock w + 100) (Some (next_handle w)) (SetIsOpen False)
                      # call_events (get_prop a ''callback'') (clock w + 100) (next_handle w))))
   \<and> cell (run_task (Task h due_time (OpenForTimeout a)) v) = Some False
   \<and> cell (run_task (Task h due_time (ActionTimeout nextState b)) v) = Some nextState"
proof (intro conjI impI)
  assume hyp: "timers w = [] \<and> get_prop a ''duration'' = Number (Fin 100)
      \<and> get_prop b ''duration'' = Number (Fin 10)"
  let ?t = "Task (next_handle w) (clock w + 100) (OpenForTimeout a)"
  let ?u = "Task (Suc (next_handle w)) (clock w + 10) (ActionTimeout False b)"
  let ?w = "closeIn b (openFor a w)"
  from hyp have da: "timeout_ms (or_js (get_prop a ''duration'') (Number (Fin 0))) = 100"
    and db: "timeout_ms (or_js (get_prop b ''duration'') (Number (Fin 0))) = 10"
    by (simp_all add: delay_of_duration)
  from hyp have idle: "timers w = []"
    by simp
  show ts: "timers ?w = [?t, ?u]"
    using idle by (simp add: closeIn_def action_def openFor_def setTimeout_sel setIsOpen_sel da db)
  have sel: "cell ?w = Some True" "clock ?w = clock w"
    "trace ?w = trace w @ [Event (clock w) (running w) (SetIsOpen True)]"
    by (simp_all add: closeIn_def action_def openFor_def setTimeout_sel setIsOpen_sel)
  show "cell ?w = Some True"
    by (rule sel)
  have run: "run_until T ?w =
     (if T < clock w + 10 then ?w\<lparr>clock := max (clock ?w) T\<rparr>
      else if T < clock w + 100
      then (run_task ?u (?w\<lparr>timers := [?t]\<rparr>))\<lparr>clock := max (clock ?w) T\<rparr>
      else (run_task ?t ((run_task ?u (?w\<lparr>timers := [?t]\<rparr>))\<lparr>timers := []\<rparr>))
             \<lparr>clock := max (clock ?w) T\<rparr>)"
    using run_until_two [OF ts, of T] by simp
  show "cell (run_until T ?w) = Some (T < clock w + 10)"
    by (simp add: run sel run_task_sel)
  show "trace (run_until T ?w) =
          trace w @ Event (clock w) (running w) (SetIsOpen True)
            # (if T < clock w + 10 then []
               else Event (clock w + 10) (Some (Suc (next_handle w))) (SetIsOpen False)
                 # call_events (get_prop b ''callback'') (clock w + 10) (Suc (next_handle w))
                 @ (if T < clock w + 100 then []
                    else Event (clock w + 100) (Some (next_handle w)) (SetIsOpen False)
                      # call_events (get_prop a ''callback'') (clock w + 100) (next_handle w)))"
    by (simp add: run sel run_task_sel run_task_trace cong: jsval.case_cong if_cong)
next
  show "cell (run_task (Task h due_time (OpenForTimeout a)) v) = Some False"
    by (simp add: run_task_sel)
  show "cell (run_task (Task h due_time (ActionTimeout nextState b)) v) = Some nextState"
    by (simp add: run_task_sel)
qed

theorem overlapping_openFor_closeIn_witness:
  "timers mounted = []
   \<and> get_prop [''duration'' \<mapsto> Number (Fin 100), ''callback'' \<mapsto> Fn 3] ''duration''
       = Number (Fin 100)
   \<and> get_prop [''duration'' \<mapsto> Number (Fin 10), ''callback'' \<mapsto> Fn 4] ''duration''
       = Number (Fin 10)
   \<and> cell (closeIn [''duration'' \<mapsto> Number (Fin 10), ''callback'' \<mapsto> Fn 4]
             (openFor [''duration'' \<mapsto> Number (Fin 100), ''callback'' \<mapsto> Fn 3] mounted))
       = Some True
   \<and> cell (run_until 9
             (closeIn [''duration'' \<mapsto> Number (Fin 10), ''callback'' \<mapsto> Fn 4]
               (openFor [''duration'' \<mapsto> Number (Fin 100), ''callback'' \<mapsto> Fn 3] mounted)))
       = Some True
   \<and> cell (run_until 10
             (closeIn [''duration'' \<mapsto> Number (Fin 10), ''callback'' \<mapsto> Fn 4]
               (openFor [''duration'' \<mapsto> Number (Fin 100), ''callback'' \<mapsto> Fn 3] mounted)))
       = Some False
   \<and> trace (run_until 99
             (closeIn [''duration'' \<mapsto> Number (Fin 10), ''callback'' \<mapsto> Fn 4]
               (openFor [''duration'' \<mapsto> Number (Fin 100), ''callback'' \<mapsto> Fn 3] mounted)))
       = [Event 0 None (SetIsOpen True),
          Event 10 (Some 1) (SetIsOpen False), Event 10 (Some 1) (Invoke 4)]
   \<and> trace (run_until 100
             (closeIn [''duration'' \<mapsto> Number (Fin 10), ''callback'' \<mapsto> Fn 4]
               (openFor [''duration'' \<mapsto> Number (Fin 100), ''callback'' \<mapsto> Fn 3] mounted)))
       = [Event 0 None (SetIsOpen True),
          Event 10 (Some 1) (SetIsOpen False), Event 10 (Some 1) (Invoke 4),
          Event 100 (Some 0) (SetIsOpen False), Event 100 (Some 0) (Invoke 3)]"
proof -
  have g: "get_prop [''duration'' \<mapsto> Number (Fin 100), ''callback'' \<mapsto> Fn 3] ''duration''
       = Number (Fin 100)"
    "get_prop [''duration'' \<mapsto> Number (Fin 100), ''callback'' \<mapsto> Fn 3] ''callback'' = Fn 3"
    "get_prop [''duration'' \<mapsto> Number (Fin 10), ''callback'' \<mapsto> Fn 4] ''duration''
       = Number (Fin 10)"
    "get_prop [''duration'' \<mapsto> Number (Fin 10), ''callback'' \<mapsto> Fn 4] ''callback'' = Fn 4"
    by (simp_all add: get_prop_def)
  note inst = overlapping_openFor_closeIn
      [where a = "[''duration'' \<mapsto> Number (Fin 100), ''callback'' \<mapsto> Fn 3]"
         and b = "[''duration'' \<mapsto> Number (Fin 10), ''callback'' \<mapsto> Fn 4]"
         and w = mounted]
  show ?thesis
    using inst [where T = 9] inst [where T = 10] inst [where T = 99] inst [where T = 100]
    by (simp add: g mounted_sel)
qed





text \<open>
  C8. On an instance whose flag is \<open>false\<close> and which has nothing pending, \<open>closeIn\<close> with
  a callback leaves the flag \<open>false\<close> at every later time, and once the delay has elapsed
  the trace holds the write of \<open>false\<close> followed by the invocation of the callback. The
  scheduled write does not look at the flag: run on worlds that differ only in the flag,
  the task stores \<open>false\<close> and adds the same events. The same holds for
  \<open>src/useTemporaryDisclosure/index.ts\<close> with \<open>t\<close> and \<open>callBack\<close>.
\<close>

theorem closeIn_when_already_closed:
  "(timers w = [] \<and> cell w = Some False \<and> get_prop opts ''callback'' = Fn c \<longrightarrow>
      cell (closeIn opts w) = Some False
      \<and> cell (run_until T (closeIn opts w)) = Some False
      \<and> trace (run_until T (closeIn opts w)) =
          trace w @
          (if T < clock w + timeout_ms (or_js (get_prop opts ''duration'') (Number (Fin 0)))
           then []
           else [Event (clock w + timeout_ms (or_js (get_prop opts ''duration'') (Number (Fin 0))))
                   (Some (next_handle w)) (SetIsOpen False),
                 Event (clock w + timeout_ms (or_js (get_prop opts ''duration'') (Number (Fin 0))))
                   (Some (next_handle w)) (Invoke c)]))
   \<and> cell (run_task (Task h due_time (ActionTimeout False opts)) (v\<lparr>cell := x\<rparr>)) = Some False
   \<and> trace (run_task (Task h due_time (ActionTimeout False opts)) (v\<lparr>cell := x\<rparr>))
       = trace (run_task (Task h due_time (ActionTimeout False opts)) v)
   \<and> (timers w = [] \<and> cell w = Some False \<and> get_prop opts ''callBack'' = Fn c \<longrightarrow>
      cell (closeIn_legacy opts w) = Some False
      \<and> cell (run_until T (closeIn_legacy opts w)) = Some False
      \<and> trace (run_until T (closeIn_legacy opts w)) =
          trace w @
          (if T < clock w + timeout_ms (or_js (get_prop opts ''t'') (Number (Fin 0)))
           then []
           else [Event (clock w + timeout_ms (or_js (get_prop opts ''t'') (Number (Fin 0))))
                   (Some (next_handle w)) (SetIsOpen False),
                 Event (clock w + timeout_ms (or_js (get_prop opts ''t'') (Number (Fin 0))))
                   (Some (next_handle w)) (Invoke c)]))
   \<and> cell (run_task (Task h due_time (ActionTimeout_legacy False opts)) (v\<lparr>cell := x\<rparr>))
       = Some False
   \<and> trace (run_task (Task h due_time (ActionTimeout_legacy False opts)) (v\<lparr>cell := x\<rparr>))
       = trace (run_task (Task h due_time (ActionTimeout_legacy False opts)) v)"
  by (simp add: closeIn_def action_def closeIn_legacy_def action_legacy_def setTimeout_sel
        run_task_sel run_task_trace timeline cong: jsval.case_cong if_cong)

theorem closeIn_when_already_closed_witness:
  "timers mounted = [] \<and> cell mounted = Some False
   \<and> get_prop readme_opts ''callback'' = Fn 7 \<and> get_prop legacy_opts ''callBack'' = Fn 7
   \<and> cell (run_until 2999 (closeIn readme_opts mounted)) = Some False
   \<and> trace (run_until 2999 (closeIn readme_opts mounted)) = []
   \<and> cell (run_until 3000 (closeIn readme_opts mounted)) = Some False
   \<and> trace (run_until 3000 (closeIn readme_opts mounted)) =
       [Event 3000 (Some 0) (SetIsOpen False), Event 3000 (Some 0) (Invoke 7)]
   \<and> trace (run_until 3000 (closeIn_legacy legacy_opts mounted)) =
       [Event 3000 (Some 0) (SetIsOpen False), Event 3000 (Some 0) (Invoke 7)]"
proof -
  have d: "timeout_ms (or_js (Number (Fin 3000)) (Number (Fin 0))) = 3000"
    by (simp add: delay_of_duration)
  show ?thesis
    using closeIn_when_already_closed
            [where opts = readme_opts and w = mounted and c = 7 and T = 2999]
          closeIn_when_already_closed
            [where opts = readme_opts and w = mounted and c = 7 and T = 3000]
          closeIn_when_already_closed
            [where opts = legacy_opts and w = mounted and c = 7 and T = 3000]
    by (simp add: mounted_sel example_opts d)
qed

section \<open>The initial flag\<close>

text \<open>
  C9. The first call of the hook on an instance whose state slot is still empty renders
  \<open>isOpen = false\<close> and leaves \<open>false\<close> in the slot, without writing anything to the
  trace and without scheduling anything; this holds for both source files.
\<close>

theorem fresh_instance_is_closed:
  assumes "cell w = None"
  shows "map_of (fst (useTemporaryDisclosure w)) ''isOpen'' = Some (PBool False)
       \<and> cell (snd (useTemporaryDisclosure w)) = Some False
       \<and> trace (snd (useTemporaryDisclosure w)) = trace w
       \<and> timers (snd (useTemporaryDisclosure w)) = timers w
       \<and> map_of (fst (useTemporaryDisclosure_legacy w)) ''isOpen'' = Some (PBool False)
       \<and> cell (snd (useTemporaryDisclosure_legacy w)) = Some False
       \<and> trace (snd (useTemporaryDisclosure_legacy w)) = trace w
       \<and> timers (snd (useTemporaryDisclosure_legacy w)) = timers w"
  using assms
  by (simp add: useTemporaryDisclosure_def useTemporaryDisclosure_legacy_def useState_def)

theorem fresh_instance_is_closed_witness:
  "cell unmounted = None
   \<and> map_of (fst (useTemporaryDisclosure unmounted)) ''isOpen'' = Some (PBool False)
   \<and> cell (snd (useTemporaryDisclosure unmounted)) = Some False
   \<and> map_of (fst (useTemporaryDisclosure_legacy unmounted)) ''isOpen'' = Some (PBool False)
   \<and> cell (snd (useTemporaryDisclosure_legacy unmounted)) = Some False"
proof -
  have h: "cell unmounted = None"
    by (simp add: unmounted_def)
  show ?thesis
    using h fresh_instance_is_closed [OF h] by simp
qed

section \<open>The two source files against each other\<close>

text \<open>
  C10. Let the options object handed to the hook of \<open>src/useTemporaryDisclosure/index.ts\<close>
  carry under \<open>t\<close> and \<open>callBack\<close> what the one handed to the documented hook
  carries under \<open>duration\<close> and \<open>callback\<close>. Then, from any world, corresponding operations
  lead to worlds that behave alike, right after the call and after any time \<open>T\<close>: the
  flag, the trace of flag writes and callback invocations with their times, and the due
  times of the pending tasks are the same.
\<close>

theorem legacy_hook_behaves_like_current:
  assumes "get_prop l ''t'' = get_prop opts ''duration''"
    and "get_prop l ''callBack'' = get_prop opts ''callback''"
  shows "same_behaviour (openFor_legacy l w) (openFor opts w)
       \<and> same_behaviour (openIn_legacy l w) (openIn opts w)
       \<and> same_behaviour (closeIn_legacy l w) (closeIn opts w)
       \<and> same_behaviour (run_until T (openFor_legacy l w)) (run_until T (openFor opts w))
       \<and> same_behaviour (run_until T (openIn_legacy l w)) (run_until T (openIn opts w))
       \<and> same_behaviour (run_until T (closeIn_legacy l w)) (run_until T (closeIn opts w))
       \<and> map due (timers (openFor_legacy l w)) = map due (timers (openFor opts w))
       \<and> map due (timers (openIn_legacy l w)) = map due (timers (openIn opts w))
       \<and> map due (timers (closeIn_legacy l w)) = map due (timers (closeIn opts w))
       \<and> cell (run_until T (openFor_legacy l w)) = cell (run_until T (openFor opts w))
       \<and> cell (run_until T (openIn_legacy l w)) = cell (run_until T (openIn opts w))
       \<and> cell (run_until T (closeIn_legacy l w)) = cell (run_until T (closeIn opts w))
       \<and> trace (run_until T (openFor_legacy l w)) = trace (run_until T (openFor opts w))
       \<and> trace (run_until T (openIn_legacy l w)) = trace (run_until T (openIn opts w))
       \<and> trace (run_until T (closeIn_legacy l w)) = trace (run_until T (closeIn opts w))"
proof -
  have f: "same_behaviour (openFor_legacy l w) (openFor opts w)"
    unfolding openFor_legacy_def openFor_def assms(1)
    by (rule setTimeout_alike) (simp_all add: same_behaviour_refl assms(2))
  have a: "same_behaviour (action_legacy b l w) (action b opts w)" for b
    unfolding action_legacy_def action_def assms(1)
    by (rule setTimeout_alike) (simp_all add: same_behaviour_refl assms(2))
  from a have i: "same_behaviour (openIn_legacy l w) (openIn opts w)"
    and c: "same_behaviour (closeIn_legacy l w) (closeIn opts w)"
    by (simp_all add: openIn_legacy_def openIn_def closeIn_legacy_def closeIn_def)
  note later = run_until_alike [OF f, of T] run_until_alike [OF i, of T]
    run_until_alike [OF c, of T]
  show ?thesis
    using f i c later
      same_behaviour_sel(3) [OF f] same_behaviour_sel(3) [OF i] same_behaviour_sel(3) [OF c]
      later [THEN same_behaviour_sel(1)] later [THEN same_behaviour_sel(2)]
    by simp
qed

theorem legacy_hook_behaves_like_current_witness:
  "get_prop legacy_opts ''t'' = get_prop readme_opts ''duration''
   \<and> get_prop legacy_opts ''callBack'' = get_prop readme_opts ''callback''
   \<and> same_behaviour (run_until 3000 (openFor_legacy legacy_opts mounted))
        (run_until 3000 (openFor readme_opts mounted))
   \<and> trace (run_until 3000 (openFor_legacy legacy_opts mounted))
       = trace (run_until 3000 (openFor readme_opts mounted))
   \<and> cell (run_until 2999 (closeIn_legacy legacy_opts (openFor readme_opts mounted)))
       = cell (run_until 2999 (closeIn readme_opts (openFor readme_opts mounted)))"
proof -
  have h: "get_prop legacy_opts ''t'' = get_prop readme_opts ''duration''"
    "get_prop legacy_opts ''callBack'' = get_prop readme_opts ''callback''"
    by (simp_all add: example_opts)
  show ?thesis
    using h legacy_hook_behaves_like_current [OF h, of mounted 3000]
      legacy_hook_behaves_like_current [OF h, of "openFor readme_opts mounted" 2999]
    by simp
qed

end
